theory Spec2Isabelle
  imports Complex_Main "HOL-Library.Multiset"
begin

section \<open>Module configuration (embeddings.ts, lines 3-34)\<close>

text \<open>
  \<^verbatim>\<open>process.env\<close> maps variable names to strings; a variable that is not set reads as
  \<^verbatim>\<open>undefined\<close>, here \<open>None\<close>.  The module reads it once, when it is loaded, so every
  module-level constant is a function of the environment.
\<close>

type_synonym process_env = "string \<rightharpoonup> string"

text \<open>
  JavaScript truthiness of a \<^verbatim>\<open>string | undefined\<close>: \<^verbatim>\<open>undefined\<close> and the empty string
  are falsy, every other string is truthy.  \<^verbatim>\<open>a || b\<close> is \<open>a\<close> when \<open>a\<close> is truthy and
  \<open>b\<close> otherwise.
\<close>

definition truthy :: "string option \<Rightarrow> bool" where
  "truthy v = (case v of None \<Rightarrow> False | Some s \<Rightarrow> s \<noteq> [])"

definition js_or :: "string option \<Rightarrow> string option \<Rightarrow> string option" where
  "js_or a b = (if truthy a then a else b)"

definition or_default :: "string option \<Rightarrow> string \<Rightarrow> string" where
  "or_default a d = (case a of None \<Rightarrow> d | Some s \<Rightarrow> if s \<noteq> [] then s else d)"

definition OPENROUTER_API_KEY :: "process_env \<Rightarrow> string option" where
  "OPENROUTER_API_KEY env = env ''OPENROUTER_API_KEY''"

definition OPENAI_API_KEY :: "process_env \<Rightarrow> string option" where
  "OPENAI_API_KEY env = env ''OPENAI_API_KEY''"

definition OPENAI_BASE_URL :: "process_env \<Rightarrow> string" where
  "OPENAI_BASE_URL env = or_default (env ''OPENAI_BASE_URL'') ''https://api.openai.com/v1''"

definition EMBEDDING_MODEL :: "process_env \<Rightarrow> string" where
  "EMBEDDING_MODEL env =
     or_default (env ''QMD_EMBEDDING_MODEL'') ''openai/text-embedding-3-small''"

definition API_KEY :: "process_env \<Rightarrow> string option" where
  "API_KEY env = js_or (OPENAI_API_KEY env) (OPENROUTER_API_KEY env)"

definition BASE_URL :: "process_env \<Rightarrow> string" where
  "BASE_URL env =
     (if truthy (OPENAI_API_KEY env) then OPENAI_BASE_URL env
      else ''https://openrouter.ai/api/v1'')"

text \<open>
  The options object handed to \<^verbatim>\<open>new OpenAI(...)\<close>.  The spread of a falsy value adds no
  property, so \<open>defaultHeaders\<close> is absent (\<open>None\<close>) unless the OpenRouter key is the one
  in use.
\<close>

record OpenAI =
  apiKey :: string
  baseURL :: string
  defaultHeaders :: "(string \<times> string) list option"

definition client :: "process_env \<Rightarrow> OpenAI option" where
  "client env =
     (case API_KEY env of
        None \<Rightarrow> None
      | Some k \<Rightarrow>
          if k = [] then None
          else Some \<lparr>apiKey = k, baseURL = BASE_URL env,
                 defaultHeaders =
                   (if truthy (OPENROUTER_API_KEY env) \<and> \<not> truthy (OPENAI_API_KEY env)
                    then Some [(''HTTP-Referer'', ''https://github.com/qmd''),
                               (''X-Title'', ''QMD Knowledge Base'')]
                    else None)\<rparr>)"

definition isEmbeddingsEnabled :: "process_env \<Rightarrow> bool" where
  "isEmbeddingsEnabled env = (client env \<noteq> None)"

definition getModelName :: "process_env \<Rightarrow> string" where
  "getModelName env = EMBEDDING_MODEL env"

section \<open>The dimension table (embeddings.ts, lines 36-46)\<close>

text \<open>
  What a property read on \<^verbatim>\<open>MODEL_DIMENSIONS\<close> can give: a number (one of the four
  entries), a property that every object literal inherits from \<^verbatim>\<open>Object.prototype\<close> (a
  function, or the prototype object itself for \<^verbatim>\<open>__proto__\<close>), or \<^verbatim>\<open>undefined\<close>.
\<close>

datatype js_value = Number nat | Inherited string | Undefined

definition MODEL_DIMENSIONS_entries :: "(string \<times> nat) list" where
  "MODEL_DIMENSIONS_entries =
     [(''openai/text-embedding-3-small'', 1536),
      (''openai/text-embedding-3-large'', 3072),
      (''cohere/embed-english-v3.0'', 1024),
      (''cohere/embed-multilingual-v3.0'', 1024)]"

text \<open>The property names an object literal inherits from \<^verbatim>\<open>Object.prototype\<close>.\<close>

definition Object_prototype_properties :: "string list" where
  "Object_prototype_properties =
     [''constructor'', ''hasOwnProperty'', ''isPrototypeOf'', ''propertyIsEnumerable'',
      ''toLocaleString'', ''toString'', ''valueOf'', ''__proto__'',
      ''__defineGetter__'', ''__defineSetter__'', ''__lookupGetter__'', ''__lookupSetter__'']"

text \<open>
  The read \<^verbatim>\<open>MODEL_DIMENSIONS[key]\<close>: the object's own entry, else the inherited
  property, else \<^verbatim>\<open>undefined\<close>.
\<close>

definition MODEL_DIMENSIONS :: "string \<Rightarrow> js_value" where
  "MODEL_DIMENSIONS key =
     (case map_of MODEL_DIMENSIONS_entries key of
        Some n \<Rightarrow> Number n
      | None \<Rightarrow> if key \<in> set Object_prototype_properties then Inherited key else Undefined)"

text \<open>Truthiness: \<^verbatim>\<open>0\<close> and \<^verbatim>\<open>undefined\<close> are falsy, functions and objects are truthy.\<close>

definition value_truthy :: "js_value \<Rightarrow> bool" where
  "value_truthy v = (case v of Number n \<Rightarrow> n \<noteq> 0 | Inherited k \<Rightarrow> True | Undefined \<Rightarrow> False)"

definition getEmbeddingDimensions :: "process_env \<Rightarrow> js_value" where
  "getEmbeddingDimensions env =
     (if value_truthy (MODEL_DIMENSIONS (EMBEDDING_MODEL env))
      then MODEL_DIMENSIONS (EMBEDDING_MODEL env) else Number 1536)"

section \<open>The embedding client (embeddings.ts, lines 57-89)\<close>

text \<open>
  One element of \<^verbatim>\<open>response.data\<close>: the batch-local position, an integer, and the
  vector.  The vectors are opaque to \<^verbatim>\<open>embed\<close>, so their type is a parameter.
\<close>

record 'v item =
  index :: int
  embedding :: 'v

text \<open>The argument of \<^verbatim>\<open>client.embeddings.create\<close>.\<close>

record create_params =
  model :: string
  input :: "string list"

text \<open>
  The remote capability is outside the program.  It is a parameter: a transition of an
  arbitrary provider state \<open>'p\<close> that, for the client it is reached through and the
  request, either fails with a cause \<open>'c\<close> or answers with a list of items in any order.
\<close>

type_synonym ('p, 'c, 'v) provider =
  "OpenAI \<Rightarrow> create_params \<Rightarrow> 'p \<Rightarrow> ('c + 'v item list) \<times> 'p"

text \<open>
  What \<^verbatim>\<open>embed\<close> throws: an \<^verbatim>\<open>Error\<close> it constructs itself, with its message, or the
  provider's error, thrown again as it was caught.
\<close>

datatype 'c thrown = JsError string | Rethrown 'c

text \<open>A line written with \<^verbatim>\<open>console.error\<close>: the message's batch offset and the error.\<close>

datatype 'c console_line = BatchFailed nat 'c

text \<open>
  One run of \<^verbatim>\<open>embed\<close>: what it returns or throws, the provider's state afterwards,
  the provider invocations it made in order (request and answer), and what it wrote to
  the console.
\<close>

record ('p, 'c, 'v) run =
  outcome :: "'c thrown + 'v list"
  remote :: 'p
  calls :: "(create_params \<times> ('c + 'v item list)) list"
  console :: "'c console_line list"

definition BATCH_SIZE :: nat where
  "BATCH_SIZE = 100"

text \<open>\<^verbatim>\<open>xs.slice(s, e)\<close> for \<open>0 \<le> s \<le> e\<close>; an end past the array is clipped.\<close>

definition slice :: "'a list \<Rightarrow> nat \<Rightarrow> nat \<Rightarrow> 'a list" where
  "slice xs s e = take (e - s) (drop s xs)"

text \<open>
  The \<^verbatim>\<open>for\<close> loop.  \<^verbatim>\<open>Array.prototype.sort\<close> is stable, and so is \<open>sort_key\<close>; the
  comparator \<^verbatim>\<open>a.index - b.index\<close> orders by \<open>index\<close>.

  The \<^verbatim>\<open>try\<close> block holds lines 80-81 as well as the provider call.
  \<^verbatim>\<open>results.push(...xs)\<close> passes one argument per element, and an engine raises a
  \<^verbatim>\<open>RangeError\<close> when there are more than it accepts; the \<^verbatim>\<open>catch\<close> would log and
  rethrow it like a provider failure.  That bound belongs to the engine, not to the
  source, and is far above the batch size, so the loop below is the source on the answers
  the spread can pass.  The statements about runs in which every invocation succeeds
  are made for answers no larger than their batch (\<open>well_answered\<close>, \<open>within_batch\<close>).
\<close>

function embed_loop ::
  "('p, 'c, 'v) provider \<Rightarrow> OpenAI \<Rightarrow> string \<Rightarrow> string list \<Rightarrow> nat \<Rightarrow> 'v list \<Rightarrow> 'p \<Rightarrow>
   (create_params \<times> ('c + 'v item list)) list \<Rightarrow> ('p, 'c, 'v) run" where
  "embed_loop prov cl mdl texts i results st trace =
     (if i < length texts then
        (let batch = slice texts i (i + BATCH_SIZE);
             params = \<lparr>model = mdl, input = batch\<rparr>
         in case prov cl params st of
              (Inl error, st') \<Rightarrow>
                \<lparr>outcome = Inl (Rethrown error), remote = st',
                 calls = trace @ [(params, Inl error)], console = [BatchFailed i error]\<rparr>
            | (Inr data, st') \<Rightarrow>
                embed_loop prov cl mdl texts (i + BATCH_SIZE)
                  (results @ map embedding (sort_key index data)) st'
                  (trace @ [(params, Inr data)]))
      else \<lparr>outcome = Inr results, remote = st, calls = trace, console = []\<rparr>)"
  by pat_completeness auto
termination
  by (relation "measure (\<lambda>(prov, cl, mdl, texts, i, results, st, trace). length texts - i)")
     (auto simp: BATCH_SIZE_def)

definition NotConfigured :: "'c thrown" where
  "NotConfigured = JsError ''OPENROUTER_API_KEY not configured''"

definition embed ::
  "process_env \<Rightarrow> ('p, 'c, 'v) provider \<Rightarrow> 'p \<Rightarrow> string list \<Rightarrow> ('p, 'c, 'v) run" where
  "embed env prov st texts =
     (case client env of
        None \<Rightarrow> \<lparr>outcome = Inl NotConfigured, remote = st, calls = [], console = []\<rparr>
      | Some cl \<Rightarrow>
          if length texts = 0
          then \<lparr>outcome = Inr [], remote = st, calls = [], console = []\<rparr>
          else embed_loop prov cl (EMBEDDING_MODEL env) texts 0 [] st [])"

subsection \<open>Vocabulary for the statements about a run\<close>

text \<open>The request the loop sends for the batch that starts at offset \<open>i\<close>.\<close>

definition request :: "string \<Rightarrow> string list \<Rightarrow> nat \<Rightarrow> create_params" where
  "request mdl texts i = \<lparr>model = mdl, input = slice texts i (i + BATCH_SIZE)\<rparr>"


text \<open>
  An answer holds exactly one item per input of the batch: as many items as inputs, and
  for every position \<open>j\<close> of the batch exactly one item whose index is \<open>j\<close>.
\<close>

definition one_per_input :: "string list \<Rightarrow> 'v item list \<Rightarrow> bool" where
  "one_per_input batch data =
     (length data = length batch \<and>
      list_all (\<lambda>j. length (filter (\<lambda>d. index d = int j) data) = 1) [0..<length batch])"

text \<open>The vector an answer associates with position \<open>j\<close> of its batch.\<close>

definition associated :: "'v item list \<Rightarrow> nat \<Rightarrow> 'v option" where
  "associated data j = map_option embedding (find (\<lambda>d. index d = int j) data)"

definition well_answered :: "create_params \<times> ('c + 'v item list) \<Rightarrow> bool" where
  "well_answered c =
     (case snd c of Inl e \<Rightarrow> False | Inr data \<Rightarrow> one_per_input (input (fst c)) data)"


definition vector_for :: "create_params \<times> ('c + 'v item list) \<Rightarrow> nat \<Rightarrow> 'v option" where
  "vector_for c j = (case snd c of Inl e \<Rightarrow> None | Inr data \<Rightarrow> associated data j)"

text \<open>What the loop appends for an answer: the vectors, in ascending order of index.\<close>

definition vectors_of :: "('c + 'v item list) \<Rightarrow> 'v list" where
  "vectors_of resp = (case resp of Inl e \<Rightarrow> [] | Inr data \<Rightarrow> map embedding (sort_key index data))"

subsection \<open>Concrete providers and inputs\<close>

text \<open>
  A provider that answers every request, items in descending order of index, and counts
  its invocations; one that fails on invocation number \<open>k\<close> and answers in ascending
  order otherwise.
\<close>

definition echo_provider :: "(nat, string, string) provider" where
  "echo_provider cl q n =
     (Inr (rev (map (\<lambda>(j, t). \<lparr>index = int j, embedding = ''vec:'' @ t\<rparr>)
                  (enumerate 0 (input q)))), Suc n)"

definition flaky_provider :: "nat \<Rightarrow> (nat, string, string) provider" where
  "flaky_provider k cl q n =
     (if n = k then (Inl ''rate limit'', Suc n)
      else (Inr (map (\<lambda>(j, t). \<lparr>index = int j, embedding = ''vec:'' @ t\<rparr>)
                  (enumerate 0 (input q))), Suc n))"

definition openai_env :: process_env where
  "openai_env = [''OPENAI_API_KEY'' \<mapsto> ''sk-test'']"

definition both_env :: process_env where
  "both_env = [''OPENAI_API_KEY'' \<mapsto> ''sk-test'', ''OPENROUTER_API_KEY'' \<mapsto> ''or-test'',
               ''OPENAI_BASE_URL'' \<mapsto> ''https://proxy.example/v1'']"

definition openrouter_env :: process_env where
  "openrouter_env = [''OPENROUTER_API_KEY'' \<mapsto> ''or-test'', ''OPENAI_API_KEY'' \<mapsto> '''',
                     ''OPENAI_BASE_URL'' \<mapsto> ''https://proxy.example/v1'']"

definition constructor_env :: process_env where
  "constructor_env = [''QMD_EMBEDDING_MODEL'' \<mapsto> ''constructor'']"

definition texts101 :: "string list" where
  "texts101 = ''a'' # replicate 99 ''t'' @ [''u'']"

section \<open>The similarity utility (embeddings.ts, lines 104-125)\<close>

text \<open>
  The arithmetic of JavaScript numbers is a parameter of the model: the literal \<^verbatim>\<open>0\<close>,
  addition, multiplication, division, \<^verbatim>\<open>Math.sqrt\<close> and the test \<^verbatim>\<open>x === 0\<close>.  What is
  proved holds for every such arithmetic, that of IEEE 754 doubles included; the reals
  are the instance used for concrete inputs.
\<close>

record 'f arith =
  f_zero :: 'f
  f_add :: "'f \<Rightarrow> 'f \<Rightarrow> 'f"
  f_mul :: "'f \<Rightarrow> 'f \<Rightarrow> 'f"
  f_div :: "'f \<Rightarrow> 'f \<Rightarrow> 'f"
  f_sqrt :: "'f \<Rightarrow> 'f"
  f_eq_zero :: "'f \<Rightarrow> bool"

text \<open>
  The thrown \<^verbatim>\<open>Error\<close>; its message names \<^verbatim>\<open>a.length\<close> and \<^verbatim>\<open>b.length\<close>, in this order.
\<close>

datatype cosine_error = DimensionMismatch nat nat

text \<open>The \<^verbatim>\<open>for\<close> loop: one pass over the indices, three running sums.\<close>

function cosine_loop ::
  "'f arith \<Rightarrow> 'f list \<Rightarrow> 'f list \<Rightarrow> nat \<Rightarrow> 'f \<Rightarrow> 'f \<Rightarrow> 'f \<Rightarrow> 'f \<times> 'f \<times> 'f" where
  "cosine_loop ar a b i dot normA normB =
     (if i < length a then
        cosine_loop ar a b (i + 1)
          (f_add ar dot (f_mul ar (a ! i) (b ! i)))
          (f_add ar normA (f_mul ar (a ! i) (a ! i)))
          (f_add ar normB (f_mul ar (b ! i) (b ! i)))
      else (dot, normA, normB))"
  by pat_completeness auto
termination
  by (relation "measure (\<lambda>(ar, a, b, i, dot, normA, normB). length a - i)") auto

definition cosineSimilarity :: "'f arith \<Rightarrow> 'f list \<Rightarrow> 'f list \<Rightarrow> cosine_error + 'f" where
  "cosineSimilarity ar a b =
     (if length a \<noteq> length b then Inl (DimensionMismatch (length a) (length b))
      else
        (case cosine_loop ar a b 0 (f_zero ar) (f_zero ar) (f_zero ar) of
           (dot, normA, normB) \<Rightarrow>
             (let denominator = f_mul ar (f_sqrt ar normA) (f_sqrt ar normB)
              in if f_eq_zero ar denominator then Inr (f_zero ar)
                 else Inr (f_div ar dot denominator))))"

text \<open>
  The three sums as the specification names them, each accumulated from \<open>0\<close> in index
  order.
\<close>

definition dot_product :: "'f arith \<Rightarrow> 'f list \<Rightarrow> 'f list \<Rightarrow> 'f" where
  "dot_product ar a b = foldl (f_add ar) (f_zero ar) (map2 (f_mul ar) a b)"

definition sum_squares :: "'f arith \<Rightarrow> 'f list \<Rightarrow> 'f" where
  "sum_squares ar a = foldl (f_add ar) (f_zero ar) (map (\<lambda>x. f_mul ar x x) a)"

definition real_arith :: "real arith" where
  "real_arith = \<lparr>f_zero = 0, f_add = (+), f_mul = (*), f_div = (/), f_sqrt = sqrt,
                  f_eq_zero = (\<lambda>x. x = 0)\<rparr>"

section \<open>Properties of the batch loop\<close>

declare embed_loop.simps [simp del]

lemma embed_loop_done:
  "\<not> i < length texts \<Longrightarrow>
   embed_loop prov cl mdl texts i results st trace =
     \<lparr>outcome = Inr results, remote = st, calls = trace, console = []\<rparr>"
  by (simp add: embed_loop.simps)

lemma embed_loop_fail:
  "i < length texts \<Longrightarrow> prov cl (request mdl texts i) st = (Inl e, st') \<Longrightarrow>
   embed_loop prov cl mdl texts i results st trace =
     \<lparr>outcome = Inl (Rethrown e), remote = st',
      calls = trace @ [(request mdl texts i, Inl e)], console = [BatchFailed i e]\<rparr>"
  by (simp add: embed_loop.simps [of prov cl mdl texts i] request_def Let_def)

lemma embed_loop_ok:
  "i < length texts \<Longrightarrow> prov cl (request mdl texts i) st = (Inr data, st') \<Longrightarrow>
   embed_loop prov cl mdl texts i results st trace =
     embed_loop prov cl mdl texts (i + BATCH_SIZE) (results @ vectors_of (Inr data)) st'
       (trace @ [(request mdl texts i, Inr data)])"
  by (simp add: embed_loop.simps [of prov cl mdl texts i] request_def Let_def vectors_of_def)

lemma embed_loop_acc:
  fixes prov :: "('p, 'c, 'v) provider"
  shows "embed_loop prov cl mdl texts i results st trace =
     (let r = embed_loop prov cl mdl texts i [] st []
      in \<lparr>outcome = (case outcome r of Inl e \<Rightarrow> Inl e | Inr vs \<Rightarrow> Inr (results @ vs)),
          remote = remote r, calls = trace @ calls r, console = console r\<rparr>)"
proof (induction "length texts - i" arbitrary: i results st trace rule: less_induct)
  case less
  show ?case
  proof (cases "i < length texts")
    case False
    then show ?thesis by (simp add: embed_loop_done)
  next
    case True
    obtain resp st' where p: "prov cl (request mdl texts i) st = (resp, st')"
      by (cases "prov cl (request mdl texts i) st")
    show ?thesis
    proof (cases resp)
      case (Inl e)
      with True p show ?thesis by (simp add: embed_loop_fail)
    next
      case (Inr data)
      have m: "length texts - (i + BATCH_SIZE) < length texts - i"
        using True by (simp add: BATCH_SIZE_def)
      let ?v = "vectors_of (Inr data :: 'c + 'v item list)"
      let ?c = "(request mdl texts i, Inr data :: 'c + 'v item list)"
      have p': "prov cl (request mdl texts i) st = (Inr data, st')"
        using p Inr by simp
      have e1: "embed_loop prov cl mdl texts i results st trace =
                embed_loop prov cl mdl texts (i + BATCH_SIZE) (results @ ?v) st' (trace @ [?c])"
        by (rule embed_loop_ok [where prov = prov and cl = cl and st = st, OF True p'])
      have e2: "embed_loop prov cl mdl texts i [] st [] =
                embed_loop prov cl mdl texts (i + BATCH_SIZE) ?v st' [?c]"
        using embed_loop_ok [where prov = prov and cl = cl and st = st and results = "[]" and trace = "[]", OF True p'] by simp
      note a = less [OF m, of "results @ ?v" st' "trace @ [?c]"]
      note b = less [OF m, of "?v" st' "[?c]"]
      show ?thesis
        unfolding e1 e2 by (subst a, subst b) (simp add: Let_def split: sum.splits)
    qed
  qed
qed


lemma embed_loop_step:
  fixes prov :: "('p, 'c, 'v) provider"
  assumes "i < length texts" and "prov cl (request mdl texts i) st = (Inr data, st')"
  shows "embed_loop prov cl mdl texts i [] st [] =
     (let r = embed_loop prov cl mdl texts (i + BATCH_SIZE) [] st' []
      in \<lparr>outcome = (case outcome r of Inl e \<Rightarrow> Inl e
                        | Inr vs \<Rightarrow> Inr (vectors_of (Inr data :: 'c + 'v item list) @ vs)),
          remote = remote r, calls = (request mdl texts i, Inr data) # calls r,
          console = console r\<rparr>)"
proof -
  have "embed_loop prov cl mdl texts i [] st [] =
        embed_loop prov cl mdl texts (i + BATCH_SIZE) (vectors_of (Inr data :: 'c + 'v item list)) st'
          [(request mdl texts i, Inr data)]"
    using embed_loop_ok [where prov = prov and cl = cl and st = st and results = "[]"
        and trace = "[]", OF assms] by simp
  also have "\<dots> = (let r = embed_loop prov cl mdl texts (i + BATCH_SIZE) [] st' []
      in \<lparr>outcome = (case outcome r of Inl e \<Rightarrow> Inl e
                        | Inr vs \<Rightarrow> Inr (vectors_of (Inr data :: 'c + 'v item list) @ vs)),
          remote = remote r, calls = [(request mdl texts i, Inr data)] @ calls r,
          console = console r\<rparr>)"
    by (rule embed_loop_acc)
  finally show ?thesis by simp
qed

lemma embed_loop_induct [case_names finished failed answered]:
  fixes prov :: "('p, 'c, 'v) provider" and st :: 'p
  assumes fin: "\<And>i st. \<not> i < length texts \<Longrightarrow> P i st"
    and bad: "\<And>i st e st'. i < length texts \<Longrightarrow>
           prov cl (request mdl texts i) st = (Inl e, st') \<Longrightarrow> P i st"
    and good: "\<And>i st data st'. i < length texts \<Longrightarrow>
           prov cl (request mdl texts i) st = (Inr data, st') \<Longrightarrow> P (i + BATCH_SIZE) st' \<Longrightarrow>
           P i st"
  shows "P i st"
proof -
  have "length texts - j \<le> n \<Longrightarrow> P j s" for n j s
  proof (induction n arbitrary: j s)
    case (0 j s)
    then have "\<not> j < length texts" by simp
    then show ?case by (rule fin)
  next
    case (Suc n j s)
    show ?case
    proof (cases "j < length texts")
      case False
      then show ?thesis by (rule fin)
    next
      case True
      obtain resp st' where p: "prov cl (request mdl texts j) s = (resp, st')"
        by (cases "prov cl (request mdl texts j) s")
      show ?thesis
      proof (cases resp)
        case (Inl e)
        with p have "prov cl (request mdl texts j) s = (Inl e, st')" by simp
        with True show ?thesis by (rule bad)
      next
        case (Inr data)
        with p have p': "prov cl (request mdl texts j) s = (Inr data, st')" by simp
        have "length texts - (j + BATCH_SIZE) \<le> n"
          using True Suc.prems by (simp add: BATCH_SIZE_def)
        then have "P (j + BATCH_SIZE) st'" by (rule Suc.IH)
        with True p' show ?thesis by (rule good)
      qed
    qed
  qed
  then show ?thesis by blast
qed


lemma embed_loop_failed:
  fixes prov :: "('p, 'c, 'v) provider"
  assumes "i < length texts" and "prov cl (request mdl texts i) st = (Inl e, st')"
  shows "embed_loop prov cl mdl texts i [] st [] =
     \<lparr>outcome = Inl (Rethrown e), remote = st',
      calls = [(request mdl texts i, Inl e)], console = [BatchFailed i e]\<rparr>"
  using embed_loop_fail [where prov = prov and cl = cl and st = st and results = "[]"
      and trace = "[]", OF assms] by simp

lemma calls_request:
  fixes prov :: "('p, 'c, 'v) provider"
  shows "k < length (calls (embed_loop prov cl mdl texts i [] st [])) \<Longrightarrow>
     fst (calls (embed_loop prov cl mdl texts i [] st []) ! k) =
       request mdl texts (i + k * BATCH_SIZE)"
proof (induction i st arbitrary: k
    rule: embed_loop_induct [where prov = prov and cl = cl and mdl = mdl and texts = texts])
  case (finished i st)
  then show ?case by (simp add: embed_loop_done)
next
  case (failed i st e st')
  then show ?case
    by (simp add: embed_loop_failed [where prov = prov and cl = cl and st = st, OF failed(1,2)])
next
  case (answered i st data st')
  note eq = embed_loop_step [where prov = prov and cl = cl and st = st, OF answered(1,2)]
  show ?case
  proof (cases k)
    case 0
    show ?thesis by (simp add: 0 eq Let_def)
  next
    case (Suc k')
    with answered(4) have "k' < length (calls (embed_loop prov cl mdl texts (i + BATCH_SIZE) [] st' []))"
      by (simp add: eq Let_def)
    then have "fst (calls (embed_loop prov cl mdl texts (i + BATCH_SIZE) [] st' []) ! k') =
       request mdl texts (i + BATCH_SIZE + k' * BATCH_SIZE)"
      by (rule answered(3))
    with Suc show ?thesis
      by (simp add: eq Let_def add.assoc)
  qed
qed

lemma batches_step:
  fixes i n :: nat
  assumes "i < n"
  shows "Suc ((n - (i + 100) + 99) div 100) = (n - i + 99) div 100"
proof (cases "i + 100 \<le> n")
  case True
  then have "n - i + 99 = (n - (i + 100) + 99) + 100" by simp
  then show ?thesis by (simp only: div_add_self2)
next
  case False
  with assms have a: "n - (i + 100) = 0" and b: "100 \<le> n - i + 99" and c: "n - i + 99 < 200"
    by simp_all
  from b c have "(n - i + 99) div 100 = 1"
    by (simp add: div_eq_dividend_iff div_nat_eqI)
  with a show ?thesis by simp
qed

lemma batches_pos:
  fixes i n :: nat
  assumes "i < n"
  shows "Suc 0 \<le> (n - i + 99) div 100"
  using batches_step [OF assms] by simp

lemma calls_length_le:
  fixes prov :: "('p, 'c, 'v) provider"
  shows "length (calls (embed_loop prov cl mdl texts i [] st [])) \<le>
     (length texts - i + 99) div 100"
proof (induction i st
    rule: embed_loop_induct [where prov = prov and cl = cl and mdl = mdl and texts = texts])
  case (finished i st)
  then show ?case by (simp add: embed_loop_done)
next
  case (failed i st e st')
  with batches_pos [OF failed(1)] show ?case
    by (simp add: embed_loop_failed [where prov = prov and cl = cl and st = st, OF failed(1,2)])
next
  case (answered i st data st')
  note eq = embed_loop_step [where prov = prov and cl = cl and st = st, OF answered(1,2)]
  from answered(3) have
    "Suc (length (calls (embed_loop prov cl mdl texts (i + BATCH_SIZE) [] st' []))) \<le>
     Suc ((length texts - (i + 100) + 99) div 100)"
    by (simp add: BATCH_SIZE_def)
  then show ?case by (simp add: eq Let_def batches_step [OF answered(1)])
qed

lemma run_success:
  fixes prov :: "('p, 'c, 'v) provider"
  assumes "\<forall>c \<in> set (calls (embed_loop prov cl mdl texts i [] st [])). \<not> isl (snd c)"
  shows "outcome (embed_loop prov cl mdl texts i [] st []) =
       Inr (concat (map (\<lambda>c. vectors_of (snd c)) (calls (embed_loop prov cl mdl texts i [] st [])))) \<and>
     console (embed_loop prov cl mdl texts i [] st []) = [] \<and>
     length (calls (embed_loop prov cl mdl texts i [] st [])) = (length texts - i + 99) div 100"
  using assms
proof (induction i st
    rule: embed_loop_induct [where prov = prov and cl = cl and mdl = mdl and texts = texts])
  case (finished i st)
  then show ?case by (simp add: embed_loop_done)
next
  case (failed i st e st')
  then show ?case
    by (simp add: embed_loop_failed [where prov = prov and cl = cl and st = st, OF failed(1,2)])
next
  case (answered i st data st')
  note eq = embed_loop_step [where prov = prov and cl = cl and st = st, OF answered(1,2)]
  from answered(4) have
    "\<forall>c \<in> set (calls (embed_loop prov cl mdl texts (i + BATCH_SIZE) [] st' [])). \<not> isl (snd c)"
    by (simp add: eq Let_def)
  from answered(3) [OF this] have
    o: "outcome (embed_loop prov cl mdl texts (i + BATCH_SIZE) [] st' []) =
       Inr (concat (map (\<lambda>c. vectors_of (snd c))
         (calls (embed_loop prov cl mdl texts (i + BATCH_SIZE) [] st' []))))"
    and c: "console (embed_loop prov cl mdl texts (i + BATCH_SIZE) [] st' []) = []"
    and l: "length (calls (embed_loop prov cl mdl texts (i + BATCH_SIZE) [] st' [])) =
       (length texts - (i + BATCH_SIZE) + 99) div 100"
    by simp_all
  have "Suc ((length texts - (i + 100) + 99) div 100) = (length texts - i + 99) div 100"
    by (rule batches_step [OF answered(1)])
  with o c l show ?case
    by (simp add: eq Let_def BATCH_SIZE_def)
qed

lemma run_failure:
  fixes prov :: "('p, 'c, 'v) provider"
  assumes "\<exists>c \<in> set (calls (embed_loop prov cl mdl texts i [] st [])). isl (snd c)"
  shows "\<exists>e. outcome (embed_loop prov cl mdl texts i [] st []) = Inl (Rethrown e) \<and>
     calls (embed_loop prov cl mdl texts i [] st []) \<noteq> [] \<and>
     snd (last (calls (embed_loop prov cl mdl texts i [] st []))) = Inl e \<and>
     console (embed_loop prov cl mdl texts i [] st []) =
       [BatchFailed (i + (length (calls (embed_loop prov cl mdl texts i [] st [])) - 1) * BATCH_SIZE) e] \<and>
     (\<forall>c \<in> set (butlast (calls (embed_loop prov cl mdl texts i [] st []))). \<not> isl (snd c))"
  using assms
proof (induction i st
    rule: embed_loop_induct [where prov = prov and cl = cl and mdl = mdl and texts = texts])
  case (finished i st)
  then show ?case by (simp add: embed_loop_done)
next
  case (failed i st e st')
  then show ?case
    by (simp add: embed_loop_failed [where prov = prov and cl = cl and st = st, OF failed(1,2)])
next
  case (answered i st data st')
  note eq = embed_loop_step [where prov = prov and cl = cl and st = st, OF answered(1,2)]
  let ?r = "embed_loop prov cl mdl texts (i + BATCH_SIZE) [] st' []"
  from answered(4) have "\<exists>c \<in> set (calls ?r). isl (snd c)"
    by (simp add: eq Let_def)
  from answered(3) [OF this] obtain e where
    o: "outcome ?r = Inl (Rethrown e)" and n: "calls ?r \<noteq> []"
    and la: "snd (last (calls ?r)) = Inl e"
    and c: "console ?r = [BatchFailed (i + BATCH_SIZE + (length (calls ?r) - 1) * BATCH_SIZE) e]"
    and b: "\<forall>c \<in> set (butlast (calls ?r)). \<not> isl (snd c)"
    by blast
  from n have "length (calls ?r) - 1 + 1 = length (calls ?r)"
    by (cases "calls ?r") simp_all
  then have "i + BATCH_SIZE + (length (calls ?r) - 1) * BATCH_SIZE = i + length (calls ?r) * BATCH_SIZE"
    by (cases "calls ?r") simp_all
  with o n la c b show ?case
    by (simp add: eq Let_def)
qed



lemma one_per_input_indices:
  assumes "one_per_input batch data"
  shows "distinct (map index data)" and "set (map index data) = int ` {0..<length batch}"
proof -
  let ?n = "length batch"
  have sub: "int ` {0..<?n} \<subseteq> set (map index data)"
  proof
    fix x assume "x \<in> int ` {0..<?n}"
    then obtain j where j: "j < ?n" "x = int j" by auto
    with assms have "length (filter (\<lambda>d. index d = int j) data) = 1"
      by (simp add: one_per_input_def list_all_iff)
    then have "filter (\<lambda>d. index d = int j) data \<noteq> []" by auto
    then obtain d where "d \<in> set data" "index d = int j"
      by (auto simp: filter_empty_conv)
    with j show "x \<in> set (map index data)" by force
  qed
  have len: "length (map index data) = ?n"
    using assms by (simp add: one_per_input_def)
  have c: "card (int ` {0..<?n}) = ?n"
    by (simp add: card_image)
  have "card (set (map index data)) \<le> ?n"
    using card_length [of "map index data"] len by simp
  moreover have "?n \<le> card (set (map index data))"
    using card_mono [OF _ sub] c by simp
  ultimately have ce: "card (set (map index data)) = ?n" by simp
  with len show "distinct (map index data)"
    by (simp add: card_distinct)
  from sub ce c show "set (map index data) = int ` {0..<?n}"
    by (metis List.finite_set card_subset_eq)
qed

lemma one_per_input_sorted:
  assumes "one_per_input batch data"
  shows "map index (sort_key index data) = map int [0..<length batch]"
proof (rule sorted_distinct_set_unique)
  show "sorted (map index (sort_key index data))" by (rule sorted_sort_key)
  have "mset (map index (sort_key index data)) = mset (map index data)"
    by simp
  then show "distinct (map index (sort_key index data))"
    using one_per_input_indices(1) [OF assms] by (metis mset_eq_imp_distinct_iff)
  show "sorted (map int [0..<length batch])"
    by (simp add: sorted_map sorted_wrt_map)
  show "distinct (map int [0..<length batch])"
    by (simp add: distinct_map)
  show "set (map index (sort_key index data)) = set (map int [0..<length batch])"
    using one_per_input_indices(2) [OF assms] by simp
qed

lemma one_per_input_length:
  "one_per_input batch data \<Longrightarrow> length (sort_key index data) = length batch"
  by (simp add: one_per_input_def)

lemma one_per_input_nth:
  assumes "one_per_input batch data" and "j < length batch"
  shows "associated data j = Some (embedding (sort_key index data ! j))"
proof -
  have len: "length (sort_key index data) = length batch"
    using assms(1) by (rule one_per_input_length)
  let ?x = "sort_key index data ! j"
  have "map index (sort_key index data) ! j = map int [0..<length batch] ! j"
    by (simp only: one_per_input_sorted [OF assms(1)])
  with assms(2) len have ix: "index ?x = int j" by simp
  have xin: "?x \<in> set data"
    using assms(2) len by (metis nth_mem set_sort)
  then have "\<exists>d \<in> set data. index d = int j" using ix by blast
  then obtain y where f: "find (\<lambda>d. index d = int j) data = Some y"
    by (cases "find (\<lambda>d. index d = int j) data") (auto simp: find_None_iff)
  then have "y \<in> set data" "index y = int j"
    by (auto simp: find_Some_iff)
  moreover have "inj_on index (set data)"
    using one_per_input_indices(1) [OF assms(1)] by (simp add: distinct_map)
  ultimately have "y = ?x" using xin ix by (simp add: inj_on_def)
  with f show "associated data j = Some (embedding ?x)"
    by (simp add: associated_def)
qed


lemma slice_length: "length (slice xs s (s + n)) = min n (length xs - s)"
  by (simp add: slice_def)

lemma slice_nth: "j < n \<Longrightarrow> s + j < length xs \<Longrightarrow> slice xs s (s + n) ! j = xs ! (s + j)"
  by (simp add: slice_def)

lemma run_vectors:
  fixes prov :: "('p, 'c, 'v) provider"
  assumes "list_all well_answered (calls (embed_loop prov cl mdl texts i [] st []))"
  shows "\<exists>vs. outcome (embed_loop prov cl mdl texts i [] st []) = Inr vs \<and>
     length vs = length texts - i \<and>
     (\<forall>j < length texts - i.
        j div BATCH_SIZE < length (calls (embed_loop prov cl mdl texts i [] st [])) \<and>
        input (fst (calls (embed_loop prov cl mdl texts i [] st []) ! (j div BATCH_SIZE))) !
          (j mod BATCH_SIZE) = texts ! (i + j) \<and>
        vector_for (calls (embed_loop prov cl mdl texts i [] st []) ! (j div BATCH_SIZE))
          (j mod BATCH_SIZE) = Some (vs ! j))"
  using assms
proof (induction i st
    rule: embed_loop_induct [where prov = prov and cl = cl and mdl = mdl and texts = texts])
  case (finished i st)
  then show ?case by (simp add: embed_loop_done)
next
  case (failed i st e st')
  then show ?case
    by (simp add: embed_loop_failed [where prov = prov and cl = cl and st = st, OF failed(1,2)]
        well_answered_def)
next
  case (answered i st data st')
  note eq = embed_loop_step [where prov = prov and cl = cl and st = st, OF answered(1,2)]
  let ?r = "embed_loop prov cl mdl texts (i + BATCH_SIZE) [] st' []"
  let ?c = "(request mdl texts i, Inr data :: 'c + 'v item list)"
  let ?v = "vectors_of (Inr data :: 'c + 'v item list)"
  have B: "0 < BATCH_SIZE" by (simp add: BATCH_SIZE_def)
  have cs: "calls (embed_loop prov cl mdl texts i [] st []) = ?c # calls ?r"
    by (simp add: eq Let_def)
  have "well_answered ?c = one_per_input (slice texts i (i + BATCH_SIZE)) data"
    by (simp add: well_answered_def request_def)
  with answered(4) have w0: "one_per_input (slice texts i (i + BATCH_SIZE)) data"
    and wr: "list_all well_answered (calls ?r)"
    by (simp_all add: cs)
  from answered(3) [OF wr] obtain vs where
    o: "outcome ?r = Inr vs" and l: "length vs = length texts - (i + BATCH_SIZE)"
    and v: "\<And>j. j < length texts - (i + BATCH_SIZE) \<Longrightarrow>
        j div BATCH_SIZE < length (calls ?r) \<and>
        input (fst (calls ?r ! (j div BATCH_SIZE))) ! (j mod BATCH_SIZE) =
          texts ! (i + BATCH_SIZE + j) \<and>
        vector_for (calls ?r ! (j div BATCH_SIZE)) (j mod BATCH_SIZE) = Some (vs ! j)"
    by blast
  have lv: "length ?v = min BATCH_SIZE (length texts - i)"
    using one_per_input_length [OF w0] by (simp add: vectors_of_def slice_length)
  have out: "outcome (embed_loop prov cl mdl texts i [] st []) = Inr (?v @ vs)"
    by (simp add: eq Let_def o)
  have len: "length (?v @ vs) = length texts - i"
    using lv l answered(1) by simp
  have each: "j div BATCH_SIZE < length (?c # calls ?r) \<and>
        input (fst ((?c # calls ?r) ! (j div BATCH_SIZE))) ! (j mod BATCH_SIZE) = texts ! (i + j) \<and>
        vector_for ((?c # calls ?r) ! (j div BATCH_SIZE)) (j mod BATCH_SIZE) = Some ((?v @ vs) ! j)"
    if j: "j < length texts - i" for j
  proof (cases "j < BATCH_SIZE")
    case True
    then have d: "j div BATCH_SIZE = 0" and m: "j mod BATCH_SIZE = j" by simp_all
    have jl: "j < length (slice texts i (i + BATCH_SIZE))"
      using True j by (simp add: slice_length)
    have "input (fst ?c) ! j = texts ! (i + j)"
      using True j by (simp add: request_def slice_nth)
    moreover have "j < length (sort_key index data)"
      using jl one_per_input_length [OF w0] by simp
    then have "vector_for ?c j = Some (?v ! j)"
      using one_per_input_nth [OF w0 jl] by (simp add: vector_for_def vectors_of_def)
    moreover have "(?v @ vs) ! j = ?v ! j"
      using True j lv by (simp add: nth_append)
    ultimately show ?thesis by (simp add: d m)
  next
    case False
    then have ge: "BATCH_SIZE \<le> j" by simp
    let ?j = "j - BATCH_SIZE"
    have d: "j div BATCH_SIZE = Suc (?j div BATCH_SIZE)"
      using B ge by (rule le_div_geq)
    have m: "j mod BATCH_SIZE = ?j mod BATCH_SIZE"
      using ge by (rule le_mod_geq)
    have j': "?j < length texts - (i + BATCH_SIZE)"
      using j ge by simp
    have lv': "length ?v = BATCH_SIZE"
      using lv j ge by simp
    have "(?v @ vs) ! j = vs ! ?j"
      using ge lv' by (simp add: nth_append)
    moreover have "i + BATCH_SIZE + ?j = i + j"
      using ge by simp
    ultimately show ?thesis
      using v [OF j'] by (simp add: d m)
  qed
  show ?case
    unfolding cs out using len each by blast
qed


lemma enabled_client: "isEmbeddingsEnabled env \<Longrightarrow> \<exists>cl. client env = Some cl"
  by (simp add: isEmbeddingsEnabled_def)

lemma embed_disabled:
  "\<not> isEmbeddingsEnabled env \<Longrightarrow>
   embed env prov st texts = \<lparr>outcome = Inl NotConfigured, remote = st, calls = [], console = []\<rparr>"
  by (simp add: isEmbeddingsEnabled_def embed_def)

lemma embed_enabled:
  "client env = Some cl \<Longrightarrow>
   embed env prov st texts = embed_loop prov cl (EMBEDDING_MODEL env) texts 0 [] st []"
  by (simp add: embed_def embed_loop_done)


lemma well_answered_not_failed: "well_answered c \<Longrightarrow> \<not> isl (snd c)"
  by (cases "snd c") (simp_all add: well_answered_def)


lemma openai_env_enabled: "isEmbeddingsEnabled openai_env"
  by (simp add: isEmbeddingsEnabled_def client_def API_KEY_def js_or_def truthy_def
      OPENAI_API_KEY_def OPENROUTER_API_KEY_def openai_env_def)



section \<open>Properties of the similarity loop\<close>

declare cosine_loop.simps [simp del]

lemma cosine_loop_sums:
  assumes "length a = length b" and "i \<le> length a"
  shows "cosine_loop ar a b i dot normA normB =
     (foldl (f_add ar) dot (map2 (f_mul ar) (drop i a) (drop i b)),
      foldl (f_add ar) normA (map (\<lambda>x. f_mul ar x x) (drop i a)),
      foldl (f_add ar) normB (map (\<lambda>x. f_mul ar x x) (drop i b)))"
  using assms
proof (induction ar a b i dot normA normB rule: cosine_loop.induct)
  case (1 ar a b i dot normA normB)
  show ?case
  proof (cases "i < length a")
    case False
    then have "cosine_loop ar a b i dot normA normB = (dot, normA, normB)"
      by (simp add: cosine_loop.simps [of ar a b i])
    with False 1(2,3) show ?thesis by simp
  next
    case True
    with 1(2) have ib: "i < length b" by simp
    have da: "drop i a = a ! i # drop (Suc i) a"
      using True by (simp add: Cons_nth_drop_Suc)
    have db: "drop i b = b ! i # drop (Suc i) b"
      using ib by (simp add: Cons_nth_drop_Suc)
    have "Suc i \<le> length a" using True by simp
    have "cosine_loop ar a b i dot normA normB =
        cosine_loop ar a b (i + 1)
          (f_add ar dot (f_mul ar (a ! i) (b ! i)))
          (f_add ar normA (f_mul ar (a ! i) (a ! i)))
          (f_add ar normB (f_mul ar (b ! i) (b ! i)))"
      using True by (simp add: cosine_loop.simps [of ar a b i])
    also have "\<dots> =
       (foldl (f_add ar) (f_add ar dot (f_mul ar (a ! i) (b ! i)))
          (map2 (f_mul ar) (drop (i + 1) a) (drop (i + 1) b)),
        foldl (f_add ar) (f_add ar normA (f_mul ar (a ! i) (a ! i)))
          (map (\<lambda>x. f_mul ar x x) (drop (i + 1) a)),
        foldl (f_add ar) (f_add ar normB (f_mul ar (b ! i) (b ! i)))
          (map (\<lambda>x. f_mul ar x x) (drop (i + 1) b)))"
      using True by (intro 1(1) [OF True 1(2)]) simp
    finally show ?thesis by (simp add: da db)
  qed
qed

lemma cosine_loop_ends:
  assumes "length a = length b"
  shows "cosine_loop ar a b 0 (f_zero ar) (f_zero ar) (f_zero ar) =
     (dot_product ar a b, sum_squares ar a, sum_squares ar b)"
  using cosine_loop_sums [OF assms, of 0] by (simp add: dot_product_def sum_squares_def)

lemma dot_product_commute:
  assumes "\<forall>x y. f_mul ar x y = f_mul ar y x"
  shows "dot_product ar a b = dot_product ar b a"
proof -
  have "map2 (f_mul ar) a b = map2 (f_mul ar) b a"
  proof (induction a arbitrary: b)
    case Nil
    then show ?case by simp
  next
    case (Cons x xs)
    then show ?case using assms by (cases b) simp_all
  qed
  then show ?thesis by (simp add: dot_product_def)
qed

lemma cosine_value:
  assumes "length a = length b"
  shows "cosineSimilarity ar a b =
     Inr (if f_eq_zero ar (f_mul ar (f_sqrt ar (sum_squares ar a)) (f_sqrt ar (sum_squares ar b)))
          then f_zero ar
          else f_div ar (dot_product ar a b)
                 (f_mul ar (f_sqrt ar (sum_squares ar a)) (f_sqrt ar (sum_squares ar b))))"
  using assms by (simp add: cosineSimilarity_def cosine_loop_ends Let_def)

section \<open>Properties of the configuration and of the dimension table\<close>

lemmas config_defs =
  isEmbeddingsEnabled_def client_def API_KEY_def BASE_URL_def OPENAI_BASE_URL_def js_or_def
  truthy_def or_default_def OPENAI_API_KEY_def OPENROUTER_API_KEY_def

lemmas dimension_defs =
  getEmbeddingDimensions_def MODEL_DIMENSIONS_def MODEL_DIMENSIONS_entries_def
  Object_prototype_properties_def value_truthy_def EMBEDDING_MODEL_def or_default_def

lemma dimensions_known:
  "getEmbeddingDimensions Map.empty = Number 1536"
  "getEmbeddingDimensions [''QMD_EMBEDDING_MODEL'' \<mapsto> ''openai/text-embedding-3-small''] = Number 1536"
  "getEmbeddingDimensions [''QMD_EMBEDDING_MODEL'' \<mapsto> ''openai/text-embedding-3-large''] = Number 3072"
  "getEmbeddingDimensions [''QMD_EMBEDDING_MODEL'' \<mapsto> ''cohere/embed-english-v3.0''] = Number 1024"
  "getEmbeddingDimensions [''QMD_EMBEDDING_MODEL'' \<mapsto> ''cohere/embed-multilingual-v3.0''] = Number 1024"
  by (simp_all add: dimension_defs)

lemma dimensions_lookup:
  "map_of MODEL_DIMENSIONS_entries (EMBEDDING_MODEL env) = Some n \<Longrightarrow>
   getEmbeddingDimensions env = Number n"
  by (auto simp: getEmbeddingDimensions_def MODEL_DIMENSIONS_def MODEL_DIMENSIONS_entries_def
      value_truthy_def split: if_splits)

lemma dimensions_default:
  "map_of MODEL_DIMENSIONS_entries (EMBEDDING_MODEL env) = None \<Longrightarrow>
   EMBEDDING_MODEL env \<notin> set Object_prototype_properties \<Longrightarrow>
   getEmbeddingDimensions env = Number 1536"
  by (simp add: getEmbeddingDimensions_def MODEL_DIMENSIONS_def value_truthy_def)

lemmas real_sums = dot_product_def sum_squares_def real_arith_def

lemma empty_env_disabled: "\<not> isEmbeddingsEnabled Map.empty"
  by (simp add: isEmbeddingsEnabled_def client_def API_KEY_def js_or_def truthy_def
      OPENAI_API_KEY_def OPENROUTER_API_KEY_def)

section \<open>The claims\<close>

subsection \<open>C1: order preservation\<close>

text \<open>
  C1, amended.  When a credential was resolved: for every input on which every provider
  invocation of the run succeeds and returns exactly one (index, vector) pair per input
  of its batch, \<^verbatim>\<open>embed\<close> returns a sequence as long as the input whose \<open>i\<close>-th element
  is the vector the provider associated with the \<open>i\<close>-th text.  The \<open>i\<close>-th text is sent
  as position \<open>i mod 100\<close> of invocation \<open>i div 100\<close>; the result is the concatenation, in
  invocation order, of each answer's vectors sorted by index ascending.
\<close>

theorem embed_order_preserved:
  fixes prov :: "('p, 'c, 'v) provider"
  assumes "isEmbeddingsEnabled env"
    and "list_all well_answered (calls (embed env prov st texts))"
  shows "\<exists>vs. outcome (embed env prov st texts) = Inr vs \<and>
     length vs = length texts \<and>
     vs = concat (map (\<lambda>c. vectors_of (snd c)) (calls (embed env prov st texts))) \<and>
     (\<forall>i < length texts.
        i div BATCH_SIZE < length (calls (embed env prov st texts)) \<and>
        input (fst (calls (embed env prov st texts) ! (i div BATCH_SIZE))) ! (i mod BATCH_SIZE) =
          texts ! i \<and>
        vector_for (calls (embed env prov st texts) ! (i div BATCH_SIZE)) (i mod BATCH_SIZE) =
          Some (vs ! i))"
proof -
  from assms(1) obtain cl where cl: "client env = Some cl"
    using enabled_client by blast
  let ?r = "embed_loop prov cl (EMBEDDING_MODEL env) texts 0 [] st []"
  have r: "embed env prov st texts = ?r" using cl by (rule embed_enabled)
  from assms(2) have w: "list_all well_answered (calls ?r)" by (simp add: r)
  then have "\<forall>c \<in> set (calls ?r). \<not> isl (snd c)"
    by (simp add: list_all_iff well_answered_not_failed)
  from run_success [OF this] have
    o: "outcome ?r = Inr (concat (map (\<lambda>c. vectors_of (snd c)) (calls ?r)))"
    by simp
  from run_vectors [OF w] obtain vs where
    o': "outcome ?r = Inr vs" and l: "length vs = length texts"
    and v: "\<forall>i < length texts.
        i div BATCH_SIZE < length (calls ?r) \<and>
        input (fst (calls ?r ! (i div BATCH_SIZE))) ! (i mod BATCH_SIZE) = texts ! i \<and>
        vector_for (calls ?r ! (i div BATCH_SIZE)) (i mod BATCH_SIZE) = Some (vs ! i)"
    by auto
  from o o' have "vs = concat (map (\<lambda>c. vectors_of (snd c)) (calls ?r))" by simp
  with o' l v show ?thesis unfolding r by blast
qed

text \<open>
  The theorem at 101 texts and a provider that answers in descending order of index:
  the result is in input order, and its last element is the one vector of the second
  answer.
\<close>

theorem embed_order_preserved_witness:
  "isEmbeddingsEnabled openai_env \<and>
   list_all well_answered (calls (embed openai_env echo_provider 0 texts101)) \<and>
   outcome (embed openai_env echo_provider 0 texts101) =
     Inr (''vec:a'' # replicate 99 ''vec:t'' @ [''vec:u'']) \<and>
   (\<exists>vs. outcome (embed openai_env echo_provider 0 texts101) = Inr vs \<and> length vs = 101 \<and>
      vector_for (calls (embed openai_env echo_provider 0 texts101) ! 1) 0 = Some (vs ! 100))"
proof -
  have h: "list_all well_answered (calls (embed openai_env echo_provider 0 texts101))"
    by code_simp
  have o: "outcome (embed openai_env echo_provider 0 texts101) =
      Inr (''vec:a'' # replicate 99 ''vec:t'' @ [''vec:u''])"
    by code_simp
  from embed_order_preserved [OF openai_env_enabled h] obtain vs where
    a: "outcome (embed openai_env echo_provider 0 texts101) = Inr vs"
    and b: "length vs = length texts101"
    and c: "\<forall>i < length texts101.
        i div BATCH_SIZE < length (calls (embed openai_env echo_provider 0 texts101)) \<and>
        input (fst (calls (embed openai_env echo_provider 0 texts101) ! (i div BATCH_SIZE))) !
          (i mod BATCH_SIZE) = texts101 ! i \<and>
        vector_for (calls (embed openai_env echo_provider 0 texts101) ! (i div BATCH_SIZE))
          (i mod BATCH_SIZE) = Some (vs ! i)"
    by blast
  have lt: "100 < length texts101" by (simp add: texts101_def)
  from c lt have
    "vector_for (calls (embed openai_env echo_provider 0 texts101) ! (100 div BATCH_SIZE))
       (100 mod BATCH_SIZE) = Some (vs ! 100)"
    by blast
  then have "vector_for (calls (embed openai_env echo_provider 0 texts101) ! 1) 0 =
       Some (vs ! 100)"
    by (simp add: BATCH_SIZE_def)
  with a b have "outcome (embed openai_env echo_provider 0 texts101) = Inr vs \<and>
      length vs = 101 \<and>
      vector_for (calls (embed openai_env echo_provider 0 texts101) ! 1) 0 = Some (vs ! 100)"
    by (simp add: texts101_def)
  with h o openai_env_enabled show ?thesis by blast
qed

text \<open>
  As first stated, C1 does not ask for a credential.  With none, for the empty input
  (no batch, no invocation) and for one text (a provider that would answer the batch
  with one pair per input, and no invocation made, so none that fails), \<^verbatim>\<open>embed\<close>
  throws instead of returning a sequence.
\<close>

theorem embed_order_preserved_counterexample:
  "list_all well_answered (calls (embed Map.empty echo_provider 0 [])) \<and>
   outcome (embed Map.empty echo_provider 0 []) = Inl NotConfigured \<and>
   list_all well_answered (calls (embed Map.empty echo_provider 0 [''a''])) \<and>
   well_answered (\<lparr>model = ''m'', input = [''a'']\<rparr>,
      fst (echo_provider \<lparr>apiKey = ''k'', baseURL = ''u'', defaultHeaders = None\<rparr>
        \<lparr>model = ''m'', input = [''a'']\<rparr> 0)) \<and>
   outcome (embed Map.empty echo_provider 0 [''a'']) = Inl NotConfigured"
proof -
  have "well_answered (\<lparr>model = ''m'', input = [''a'']\<rparr>,
      fst (echo_provider \<lparr>apiKey = ''k'', baseURL = ''u'', defaultHeaders = None\<rparr>
        \<lparr>model = ''m'', input = [''a'']\<rparr> 0))"
    by code_simp
  then show ?thesis by (simp add: embed_disabled empty_env_disabled)
qed

subsection \<open>C2: a failing batch\<close>

text \<open>
  C2, amended.  In every run in which a provider invocation fails, the failing
  invocation is the last one made (no batch after it is invoked) and every earlier one
  succeeded; \<^verbatim>\<open>embed\<close> returns no sequence, not even a partial one: it throws the
  provider's error itself, unchanged; the batch's starting offset is written, with the
  error, to the console, and is the offset of the request that failed.
\<close>

theorem embed_failure:
  fixes prov :: "('p, 'c, 'v) provider"
  assumes "list_ex (\<lambda>c. isl (snd c)) (calls (embed env prov st texts))"
  shows "\<exists>e. snd (last (calls (embed env prov st texts))) = Inl e \<and>
     outcome (embed env prov st texts) = Inl (Rethrown e) \<and>
     console (embed env prov st texts) =
       [BatchFailed ((length (calls (embed env prov st texts)) - 1) * BATCH_SIZE) e] \<and>
     fst (last (calls (embed env prov st texts))) =
       request (EMBEDDING_MODEL env) texts
         ((length (calls (embed env prov st texts)) - 1) * BATCH_SIZE) \<and>
     list_all (\<lambda>c. \<not> isl (snd c)) (butlast (calls (embed env prov st texts)))"
proof -
  have "isEmbeddingsEnabled env"
  proof (rule ccontr)
    assume "\<not> isEmbeddingsEnabled env"
    then have "calls (embed env prov st texts) = []" by (simp add: embed_disabled)
    with assms show False by simp
  qed
  then obtain cl where cl: "client env = Some cl"
    using enabled_client by blast
  let ?r = "embed_loop prov cl (EMBEDDING_MODEL env) texts 0 [] st []"
  have r: "embed env prov st texts = ?r" using cl by (rule embed_enabled)
  from assms have "\<exists>c \<in> set (calls ?r). isl (snd c)" by (simp add: r list_ex_iff)
  from run_failure [OF this] obtain e where
    o: "outcome ?r = Inl (Rethrown e)" and n: "calls ?r \<noteq> []"
    and la: "snd (last (calls ?r)) = Inl e"
    and c: "console ?r = [BatchFailed ((length (calls ?r) - 1) * BATCH_SIZE) e]"
    and b: "\<forall>c \<in> set (butlast (calls ?r)). \<not> isl (snd c)"
    by auto
  from n have "length (calls ?r) - 1 < length (calls ?r)" by simp
  from calls_request [OF this] n have
    q: "fst (last (calls ?r)) =
       request (EMBEDDING_MODEL env) texts ((length (calls ?r) - 1) * BATCH_SIZE)"
    by (simp add: last_conv_nth)
  from b have "list_all (\<lambda>c. \<not> isl (snd c)) (butlast (calls ?r))" by (simp add: list_all_iff)
  with o la c q show ?thesis unfolding r by blast
qed

text \<open>The theorem at 101 texts and a provider that fails on its second invocation.\<close>

theorem embed_failure_witness:
  "list_ex (\<lambda>c. isl (snd c)) (calls (embed openai_env (flaky_provider 1) 0 texts101)) \<and>
   length (calls (embed openai_env (flaky_provider 1) 0 texts101)) = 2 \<and>
   outcome (embed openai_env (flaky_provider 1) 0 texts101) = Inl (Rethrown ''rate limit'') \<and>
   console (embed openai_env (flaky_provider 1) 0 texts101) = [BatchFailed 100 ''rate limit'']"
proof -
  have h: "list_ex (\<lambda>c. isl (snd c)) (calls (embed openai_env (flaky_provider 1) 0 texts101))"
    by code_simp
  have n: "length (calls (embed openai_env (flaky_provider 1) 0 texts101)) = 2"
    by code_simp
  have l: "snd (last (calls (embed openai_env (flaky_provider 1) 0 texts101))) = Inl ''rate limit''"
    by code_simp
  from embed_failure [OF h] l n
  have "outcome (embed openai_env (flaky_provider 1) 0 texts101) = Inl (Rethrown ''rate limit'') \<and>
     console (embed openai_env (flaky_provider 1) 0 texts101) = [BatchFailed 100 ''rate limit'']"
    by (auto simp: BATCH_SIZE_def)
  with h n show ?thesis by blast
qed

text \<open>
  As first stated, C2 has the thrown error carry the batch's starting offset.  The same
  101 texts with a failure at offset 0 and with a failure at offset 100 throw the same
  value, the provider's cause; only the console line tells the offsets apart.
\<close>

theorem embed_failure_counterexample:
  "outcome (embed openai_env (flaky_provider 0) 0 texts101) = Inl (Rethrown ''rate limit'') \<and>
   console (embed openai_env (flaky_provider 0) 0 texts101) = [BatchFailed 0 ''rate limit''] \<and>
   outcome (embed openai_env (flaky_provider 1) 0 texts101) = Inl (Rethrown ''rate limit'') \<and>
   console (embed openai_env (flaky_provider 1) 0 texts101) = [BatchFailed 100 ''rate limit'']"
  by code_simp

subsection \<open>C3: no credential\<close>

text \<open>
  C3.  For every input, the empty one included, if no credential was resolved then
  \<^verbatim>\<open>embed\<close> throws the not-configured error, having made no provider invocation and
  written nothing.
\<close>

theorem embed_not_configured:
  assumes "\<not> isEmbeddingsEnabled env"
  shows "embed env prov st texts =
     \<lparr>outcome = Inl NotConfigured, remote = st, calls = [], console = []\<rparr>"
  using assms by (simp add: isEmbeddingsEnabled_def embed_def)

text \<open>The theorem at the empty environment, for the empty input and for one text.\<close>

theorem embed_not_configured_witness:
  "\<not> isEmbeddingsEnabled Map.empty \<and>
   embed Map.empty echo_provider 7 [] =
     \<lparr>outcome = Inl NotConfigured, remote = 7, calls = [], console = []\<rparr> \<and>
   embed Map.empty echo_provider 7 [''x''] =
     \<lparr>outcome = Inl NotConfigured, remote = 7, calls = [], console = []\<rparr>"
  using embed_not_configured [OF empty_env_disabled, of echo_provider 7 "[]"]
    embed_not_configured [OF empty_env_disabled, of echo_provider 7 "[''x'']"]
    empty_env_disabled
  by simp

subsection \<open>C4: the empty input\<close>

text \<open>
  C4, amended.  \<^verbatim>\<open>embed([])\<close> makes no provider invocation, leaves the provider's state
  as it was and writes nothing; when a credential was resolved it returns the empty
  sequence, and when none was it throws the not-configured error.
\<close>

theorem embed_empty:
  "calls (embed env prov st []) = [] \<and> remote (embed env prov st []) = st \<and>
   console (embed env prov st []) = [] \<and>
   (isEmbeddingsEnabled env \<longrightarrow> outcome (embed env prov st []) = Inr []) \<and>
   (\<not> isEmbeddingsEnabled env \<longrightarrow> outcome (embed env prov st []) = Inl NotConfigured)"
  by (cases "client env") (simp_all add: isEmbeddingsEnabled_def embed_def)

text \<open>The theorem at an environment that holds a credential.\<close>

theorem embed_empty_witness:
  "isEmbeddingsEnabled openai_env \<and>
   outcome (embed openai_env echo_provider 0 []) = Inr [] \<and>
   calls (embed openai_env echo_provider 0 []) = []"
  using embed_empty [of openai_env echo_provider 0] openai_env_enabled by simp

text \<open>
  As first stated, C4 has \<^verbatim>\<open>embed([])\<close> return the empty sequence whatever the
  configuration.  With no credential it throws.
\<close>

theorem embed_empty_counterexample:
  "outcome (embed Map.empty echo_provider 0 []) = Inl NotConfigured \<and>
   outcome (embed Map.empty echo_provider 0 []) \<noteq> Inr []"
  by (simp add: embed_disabled empty_env_disabled)


subsection \<open>C5: batching\<close>




subsection \<open>C6: the similarity formula\<close>

text \<open>
  C6.  For vectors of equal length, the loop of \<^verbatim>\<open>cosineSimilarity\<close> computes in one
  pass the dot product and the two sums of squares, and the function returns the dot
  product divided by the product of the square roots of the two sums, or \<open>0\<close> when that
  product is exactly zero.
\<close>

theorem cosine_single_pass:
  assumes "length a = length b"
  shows "cosine_loop ar a b 0 (f_zero ar) (f_zero ar) (f_zero ar) =
       (dot_product ar a b, sum_squares ar a, sum_squares ar b) \<and>
     cosineSimilarity ar a b =
       Inr (if f_eq_zero ar (f_mul ar (f_sqrt ar (sum_squares ar a)) (f_sqrt ar (sum_squares ar b)))
            then f_zero ar
            else f_div ar (dot_product ar a b)
                   (f_mul ar (f_sqrt ar (sum_squares ar a)) (f_sqrt ar (sum_squares ar b))))"
  using assms by (simp add: cosineSimilarity_def cosine_loop_ends Let_def)

text \<open>
  The theorem on the reals: a zero vector gives \<open>0\<close>, orthogonal vectors give \<open>0\<close>, a
  vector against itself gives \<open>1\<close>.
\<close>

theorem cosine_single_pass_witness:
  "length [0, 0 :: real] = length [1, 2 :: real] \<and>
   cosineSimilarity real_arith [0, 0] [1, 2] = Inr 0 \<and>
   cosineSimilarity real_arith [1, 0] [0, 1] = Inr 0 \<and>
   cosineSimilarity real_arith [1, 2, 3] [1, 2, 3] = Inr 1 \<and>
   cosineSimilarity real_arith [3, 4] [4, 3] = Inr (24 / 25)"
proof -
  have "cosineSimilarity real_arith [0, 0] [1, 2] = Inr 0"
    using cosine_single_pass [of "[0, 0]" "[1, 2]" real_arith] by (simp add: real_sums)
  moreover have "cosineSimilarity real_arith [1, 0] [0, 1] = Inr 0"
    using cosine_single_pass [of "[1, 0]" "[0, 1]" real_arith] by (simp add: real_sums)
  moreover have "cosineSimilarity real_arith [1, 2, 3] [1, 2, 3] = Inr 1"
    using cosine_single_pass [of "[1, 2, 3]" "[1, 2, 3]" real_arith] by (simp add: real_sums)
  moreover have "sqrt 25 = 5" using real_sqrt_abs [of 5] by simp
  then have "cosineSimilarity real_arith [3, 4] [4, 3] = Inr (24 / 25)"
    using cosine_single_pass [of "[3, 4]" "[4, 3]" real_arith] by (simp add: real_sums)
  ultimately show ?thesis by simp
qed

subsection \<open>C7: the dimension check\<close>

text \<open>
  C7.  \<^verbatim>\<open>cosineSimilarity\<close> throws exactly when the two lengths differ, and the error
  then names both lengths; for equal lengths it returns a number.
\<close>

theorem cosine_mismatch_iff:
  "(cosineSimilarity ar a b = Inl (DimensionMismatch (length a) (length b))) =
     (length a \<noteq> length b) \<and>
   (isl (cosineSimilarity ar a b)) = (length a \<noteq> length b) \<and>
   (length a = length b \<longrightarrow> (\<exists>r. cosineSimilarity ar a b = Inr r))"
  by (simp add: cosineSimilarity_def Let_def split: prod.splits)

text \<open>The theorem at lengths 2 and 3, and at lengths 2 and 2.\<close>

theorem cosine_mismatch_iff_witness:
  "cosineSimilarity real_arith [1, 2] [1, 2, 3] = Inl (DimensionMismatch 2 3) \<and>
   (\<exists>r. cosineSimilarity real_arith [1, 2] [1, 2] = Inr r)"
  using cosine_mismatch_iff [of real_arith "[1, 2]" "[1, 2, 3]"]
    cosine_mismatch_iff [of real_arith "[1, 2]" "[1, 2]"]
  by simp

subsection \<open>C8: the dimension lookup\<close>

text \<open>
  C8.  The claim has \<^verbatim>\<open>getEmbeddingDimensions\<close> return 1536 for every model identifier
  that is not in the table.  For the identifier \<^verbatim>\<open>constructor\<close>, which is not in the
  table, the read finds the property the table inherits from \<^verbatim>\<open>Object.prototype\<close>; it
  is truthy, so it is returned in place of 1536.  (\<open>dimensions_known\<close>,
  \<open>dimensions_lookup\<close> and \<open>dimensions_default\<close> above are the part of the claim that
  holds.)
\<close>

theorem dimensions_inherited_property:
  "EMBEDDING_MODEL constructor_env = ''constructor'' \<and>
   map_of MODEL_DIMENSIONS_entries ''constructor'' = None \<and>
   getEmbeddingDimensions constructor_env = Inherited ''constructor'' \<and>
   getEmbeddingDimensions constructor_env \<noteq> Number 1536"
  by (simp add: dimension_defs constructor_env_def)

subsection \<open>C9: the resolved configuration\<close>

text \<open>
  C9.  A credential is present when its variable is set to a non-empty string.
  \<^verbatim>\<open>isEmbeddingsEnabled\<close> is true iff one of the two credentials is present.  When the
  OpenAI key is present (the OpenRouter key present or not) the client holds it, with
  the endpoint override when one is set and the canonical OpenAI endpoint otherwise,
  and no extra headers.  When only the OpenRouter key is present the client holds it,
  with OpenRouter's fixed endpoint and its two headers.
\<close>

theorem configuration_resolved:
  "isEmbeddingsEnabled env =
     ((\<exists>k. env ''OPENAI_API_KEY'' = Some k \<and> k \<noteq> []) \<or>
      (\<exists>k. env ''OPENROUTER_API_KEY'' = Some k \<and> k \<noteq> [])) \<and>
   (\<forall>k. env ''OPENAI_API_KEY'' = Some k \<and> k \<noteq> [] \<longrightarrow>
      client env =
        Some \<lparr>apiKey = k,
              baseURL = (case env ''OPENAI_BASE_URL'' of
                           None \<Rightarrow> ''https://api.openai.com/v1''
                         | Some u \<Rightarrow> if u \<noteq> [] then u else ''https://api.openai.com/v1''),
              defaultHeaders = None\<rparr>) \<and>
   (\<forall>k. (env ''OPENAI_API_KEY'' = None \<or> env ''OPENAI_API_KEY'' = Some []) \<and>
        env ''OPENROUTER_API_KEY'' = Some k \<and> k \<noteq> [] \<longrightarrow>
      client env =
        Some \<lparr>apiKey = k, baseURL = ''https://openrouter.ai/api/v1'',
              defaultHeaders = Some [(''HTTP-Referer'', ''https://github.com/qmd''),
                                     (''X-Title'', ''QMD Knowledge Base'')]\<rparr>)"
  by (auto simp: config_defs split: option.splits)

text \<open>
  The theorem at an environment with both keys and an override, at one with only the
  OpenRouter key (the OpenAI key set to the empty string), and at the empty one.
\<close>

theorem configuration_resolved_witness:
  "isEmbeddingsEnabled both_env \<and>
   client both_env =
     Some \<lparr>apiKey = ''sk-test'', baseURL = ''https://proxy.example/v1'', defaultHeaders = None\<rparr> \<and>
   isEmbeddingsEnabled openrouter_env \<and>
   client openrouter_env =
     Some \<lparr>apiKey = ''or-test'', baseURL = ''https://openrouter.ai/api/v1'',
           defaultHeaders = Some [(''HTTP-Referer'', ''https://github.com/qmd''),
                                  (''X-Title'', ''QMD Knowledge Base'')]\<rparr> \<and>
   \<not> isEmbeddingsEnabled Map.empty"
  using configuration_resolved [of both_env] configuration_resolved [of openrouter_env]
    configuration_resolved [of Map.empty]
  by (simp add: both_env_def openrouter_env_def)

subsection \<open>C10: symmetry\<close>

text \<open>
  C10.  In every arithmetic whose multiplication commutes, \<^verbatim>\<open>cosineSimilarity(a, b)\<close>
  and \<^verbatim>\<open>cosineSimilarity(b, a)\<close> are the same value when the lengths are equal, and both
  throw the dimension error, each naming the lengths in its own argument order, when
  they differ.
\<close>

theorem cosine_symmetric:
  assumes "\<forall>x y. f_mul ar x y = f_mul ar y x"
  shows "(length a = length b \<longrightarrow> cosineSimilarity ar a b = cosineSimilarity ar b a) \<and>
     (length a \<noteq> length b \<longrightarrow>
        cosineSimilarity ar a b = Inl (DimensionMismatch (length a) (length b)) \<and>
        cosineSimilarity ar b a = Inl (DimensionMismatch (length b) (length a)))"
proof (cases "length a = length b")
  case True
  have d: "dot_product ar a b = dot_product ar b a"
    using assms by (rule dot_product_commute)
  have m: "f_mul ar (f_sqrt ar (sum_squares ar a)) (f_sqrt ar (sum_squares ar b)) =
           f_mul ar (f_sqrt ar (sum_squares ar b)) (f_sqrt ar (sum_squares ar a))"
    using assms by simp
  have "cosineSimilarity ar a b = cosineSimilarity ar b a"
    unfolding cosine_value [OF True] cosine_value [OF True [symmetric]] d m ..
  with True show ?thesis by simp
next
  case False
  then show ?thesis by (simp add: cosineSimilarity_def)
qed

text \<open>The theorem on the reals.\<close>

theorem cosine_symmetric_witness:
  "(\<forall>x y. f_mul real_arith x y = f_mul real_arith y x) \<and>
   cosineSimilarity real_arith [1, 2] [3, 4] = cosineSimilarity real_arith [3, 4] [1, 2] \<and>
   cosineSimilarity real_arith [1, 2] [1, 2, 3] = Inl (DimensionMismatch 2 3) \<and>
   cosineSimilarity real_arith [1, 2, 3] [1, 2] = Inl (DimensionMismatch 3 2)"
proof -
  have h: "\<forall>x y. f_mul real_arith x y = f_mul real_arith y x"
    by (simp add: real_arith_def)
  from cosine_symmetric [OF h, of "[1, 2]" "[3, 4]"] cosine_symmetric [OF h, of "[1, 2]" "[1, 2, 3]"] h
  show ?thesis by simp
qed

end
